theory Spec2Isabelle
  imports Main
begin

section \<open>Data model of \<open>src/index.ts\<close>\<close>

text \<open>
  An \<open>EnvVars\<close> object (\<open>{[key: string]: string | undefined}\<close>) is the association list of
  its own properties, in the order in which \<open>Object.keys\<close> enumerates them. A value \<open>None\<close>
  is an own property bound to \<open>undefined\<close>. Every object of the code (\<open>{}\<close>, a spread copy,
  \<open>process.env\<close>) has \<open>Object.prototype\<close> as its prototype, whose members are named by
  \<open>Object_prototype\<close>.
\<close>

type_synonym EnvVars = "(string \<times> string option) list"

definition Object_prototype :: "string list" where
  "Object_prototype =
     [''constructor'', ''__defineGetter__'', ''__defineSetter__'', ''hasOwnProperty'',
      ''__lookupGetter__'', ''__lookupSetter__'', ''isPrototypeOf'', ''propertyIsEnumerable'',
      ''toString'', ''valueOf'', ''__proto__'', ''toLocaleString'']"

text \<open>
  What a read \<open>obj[k]\<close> can give: \<open>undefined\<close>, a string, or the member of
  \<open>Object.prototype\<close> of that name (a function or an object, never \<open>undefined\<close> or \<open>null\<close>).
\<close>

datatype js_value = Undefined | Str string | Inherited string

definition obj_keys :: "EnvVars \<Rightarrow> string list" where
  "obj_keys obj = map fst obj"

text \<open>
  The read of an own property (the read \<open>process.env[key]\<close> of line 31, whose \<open>key\<close> comes
  from \<open>Object.keys(process.env)\<close>): \<open>None\<close> is \<open>undefined\<close>.
\<close>

definition obj_get :: "EnvVars \<Rightarrow> string \<Rightarrow> string option" where
  "obj_get obj k = (case map_of obj k of Some (Some v) \<Rightarrow> Some v | _ \<Rightarrow> None)"

text \<open>The read \<open>obj[k]\<close> of any key: an own property first, then the prototype.\<close>

definition obj_read :: "EnvVars \<Rightarrow> string \<Rightarrow> js_value" where
  "obj_read obj k =
     (case map_of obj k of
        Some (Some v) \<Rightarrow> Str v
      | Some None \<Rightarrow> Undefined
      | None \<Rightarrow> if k \<in> set Object_prototype then Inherited k else Undefined)"

text \<open>Writing an own data property: in place when the key exists, at the end otherwise.\<close>

fun obj_put :: "EnvVars \<Rightarrow> string \<Rightarrow> string option \<Rightarrow> EnvVars" where
  "obj_put [] k v = [(k, v)]"
| "obj_put ((k', v') # obj) k v =
     (if k' = k then (k, v) # obj else (k', v') # obj_put obj k v)"

text \<open>
  The assignment \<open>obj[k] = v\<close> of a string or \<open>undefined\<close>. On an object without an own
  property \<open>__proto__\<close> the assignment to \<open>__proto__\<close> calls the setter of
  \<open>Object.prototype\<close>, which ignores a value that is neither an object nor \<open>null\<close>: no
  property is added.
\<close>

definition obj_set :: "EnvVars \<Rightarrow> string \<Rightarrow> string option \<Rightarrow> EnvVars" where
  "obj_set obj k v =
     (if k = ''__proto__'' \<and> k \<notin> set (obj_keys obj) then obj else obj_put obj k v)"

text \<open>\<open>UseEnvOptions\<close>: every field is optional; \<open>fallbacks\<close> is a \<open>Record<string, string>\<close>.\<close>

record UseEnvOptions =
  prefix :: "string option"
  required :: "string list option"
  fallbacks :: "(string \<times> string) list option"

text \<open>The module-level variables \<open>envCache\<close> and \<open>isLoading\<close>.\<close>

record module_state =
  envCache :: "EnvVars option"
  isLoading :: bool

text \<open>The two \<open>useState\<close> cells of one mounted instance of the hook.\<close>

record hook_state =
  envVars :: EnvVars
  error :: "string option"

text \<open>
  What the code reads from its host: whether \<open>window\<close> is defined, the object \<open>process.env\<close>,
  and whether evaluating \<open>process.env\<close> throws (in a browser bundle without a \<open>process\<close>
  object it does), with the text that \<open>`${err}`\<close> prints. The source has no \<open>throw\<close> of its
  own.
\<close>

record world =
  window_defined :: bool
  process_env :: EnvVars
  env_throws :: "string option"

section \<open>The resolver \<open>getAllEnvVars\<close>\<close>

definition startsWith :: "string \<Rightarrow> string \<Rightarrow> bool" where
  "startsWith k p = (take (length p) k = p)"

definition slice :: "string \<Rightarrow> nat \<Rightarrow> string" where
  "slice k n = drop n k"

definition default_prefixes :: "string list" where
  "default_prefixes = [''REACT_APP_'', ''NEXT_PUBLIC_'', ''VITE_'', ''PUBLIC_'']"

text \<open>\<open>customPrefix ? [customPrefix] : [...]\<close>: an empty string is falsy.\<close>

definition prefixes_of :: "string option \<Rightarrow> string list" where
  "prefixes_of customPrefix =
     (case customPrefix of
        None \<Rightarrow> default_prefixes
      | Some p \<Rightarrow> if p = [] then default_prefixes else [p])"

definition hasValidPrefix :: "string list \<Rightarrow> string \<Rightarrow> bool" where
  "hasValidPrefix prefixes key = list_ex (\<lambda>p. startsWith key p) prefixes"

text \<open>\<open>prefixes.reduce((k, prefix) => k.startsWith(prefix) ? k.slice(prefix.length) : k, key)\<close>\<close>

definition cleanKey :: "string list \<Rightarrow> string \<Rightarrow> string" where
  "cleanKey prefixes key =
     foldl (\<lambda>k p. if startsWith k p then slice k (length p) else k) key prefixes"

text \<open>The body of the \<open>forEach\<close> over \<open>Object.keys(process.env)\<close>.\<close>

definition forEach_key :: "EnvVars \<Rightarrow> string list \<Rightarrow> EnvVars \<Rightarrow> string \<Rightarrow> EnvVars" where
  "forEach_key env prefixes acc key =
     (case obj_get env key of
        None \<Rightarrow> acc
      | Some v \<Rightarrow>
          if hasValidPrefix prefixes key
          then obj_set (obj_set acc (cleanKey prefixes key) (Some v)) key (Some v)
          else acc)"

text \<open>Both branches evaluate \<open>process.env\<close> before anything else.\<close>

definition getAllEnvVars :: "world \<Rightarrow> string option \<Rightarrow> string + EnvVars" where
  "getAllEnvVars w customPrefix =
     (case env_throws w of
        Some e \<Rightarrow> Inl e
      | None \<Rightarrow>
          if \<not> window_defined w then Inr (process_env w)
          else Inr (foldl (forEach_key (process_env w) (prefixes_of customPrefix)) []
                      (obj_keys (process_env w))))"

section \<open>The hook \<open>useEnv\<close>\<close>

text \<open>
  \<open>useEnv\<close> is a React hook. One call of the function is one render of a component: on the
  first render of an instance (\<open>None\<close>) \<open>useState\<close> runs its initialiser, on a later render
  (\<open>Some h\<close>) it returns the stored state. The callback of \<open>useEffect\<close> runs after the
  render that mounts the instance and after a render in which one of the dependencies
  \<open>[prefix, required, fallbacks]\<close> differs from the previous render (by \<open>Object.is\<close>, so
  by reference for the array and the object; the defaults \<open>[]\<close> and \<open>{}\<close> are new at every
  call). \<open>setEnvVars\<close> and \<open>setError\<close> write the state of the instance, and the next render
  returns it.
\<close>

text \<open>The initialiser of \<open>useState\<close>; the call of the resolver here is outside any \<open>try\<close>.\<close>

definition useEnv_init :: "world \<Rightarrow> UseEnvOptions \<Rightarrow> module_state \<Rightarrow> string + EnvVars" where
  "useEnv_init w options m =
     (case envCache m of
        Some c \<Rightarrow> Inr c
      | None \<Rightarrow> getAllEnvVars w (prefix options))"

text \<open>
  \<open>if (error && process.env.NODE_ENV === 'development') console.error(...)\<close>: with a stored,
  non-empty diagnostic the render evaluates \<open>process.env\<close>, outside any \<open>try\<close>. The result is
  the exception this throws, if any; what \<open>console.error\<close> prints is not part of the model.
\<close>

definition useEnv_log :: "world \<Rightarrow> hook_state \<Rightarrow> string option" where
  "useEnv_log w h =
     (case error h of
        None \<Rightarrow> None
      | Some s \<Rightarrow> if s = [] then None else env_throws w)"

text \<open>One render: the value is what \<open>useEnv\<close> returns, \<open>Inl\<close> is an exception thrown out of it.\<close>

definition useEnv_render ::
  "world \<Rightarrow> UseEnvOptions \<Rightarrow> module_state \<Rightarrow> hook_state option \<Rightarrow> string + (hook_state \<times> EnvVars)" where
  "useEnv_render w options m hk =
     (case (case hk of
              Some h \<Rightarrow> Inr h
            | None \<Rightarrow>
                (case useEnv_init w options m of
                   Inl e \<Rightarrow> Inl e
                 | Inr v \<Rightarrow> Inr \<lparr>envVars = v, error = None\<rparr>)) of
        Inl e \<Rightarrow> Inl e
      | Inr h \<Rightarrow>
          (case useEnv_log w h of
             Some e \<Rightarrow> Inl e
           | None \<Rightarrow> Inr (h, envVars h)))"

text \<open>\<open>Object.keys(fallbacks).forEach(key => { if (varsWithFallbacks[key] === undefined) ... })\<close>\<close>

definition applyFallbacks :: "EnvVars \<Rightarrow> (string \<times> string) list \<Rightarrow> EnvVars" where
  "applyFallbacks vars fb =
     foldl (\<lambda>acc key. if obj_read acc key = Undefined then obj_set acc key (map_of fb key) else acc)
       vars (map fst fb)"

definition missingVars :: "EnvVars \<Rightarrow> string list \<Rightarrow> string list" where
  "missingVars varsWithFallbacks req =
     filter (\<lambda>key. obj_read varsWithFallbacks key = Undefined \<or>
                   obj_read varsWithFallbacks key = Str []) req"

fun join :: "string list \<Rightarrow> string \<Rightarrow> string" where
  "join [] sep = []"
| "join [x] sep = x"
| "join (x # y # xs) sep = x @ sep @ join (y # xs) sep"

text \<open>\<open>prefix || 'REACT_APP_/NEXT_PUBLIC_/VITE_'\<close>\<close>

definition prefixHint :: "string option \<Rightarrow> string" where
  "prefixHint p =
     (case p of
        None \<Rightarrow> ''REACT_APP_/NEXT_PUBLIC_/VITE_''
      | Some s \<Rightarrow> if s = [] then ''REACT_APP_/NEXT_PUBLIC_/VITE_'' else s)"

definition missing_message :: "string list \<Rightarrow> string \<Rightarrow> string" where
  "missing_message missing hint =
     ''Missing required environment variables: '' @ join missing '', '' @ ''. '' @
     ''Make sure they are prefixed with '' @ hint @ '' in your .env file.''"

definition failed_message :: "string \<Rightarrow> string" where
  "failed_message err = ''Failed to load environment variables: '' @ err"

text \<open>
  The callback of \<open>useEffect\<close>. The \<open>catch\<close> takes every failure of the \<open>try\<close> block, and
  \<open>finally\<close> resets \<open>isLoading\<close> on both paths.
\<close>

definition useEnv_effect ::
  "world \<Rightarrow> UseEnvOptions \<Rightarrow> module_state \<times> hook_state \<Rightarrow> module_state \<times> hook_state" where
  "useEnv_effect w options s =
     (let m = fst s; h = snd s;
          req = (case required options of None \<Rightarrow> [] | Some r \<Rightarrow> r);
          fb = (case fallbacks options of None \<Rightarrow> [] | Some f \<Rightarrow> f)
      in if envCache m = None \<and> \<not> isLoading m then
           (let m1 = m\<lparr>isLoading := True\<rparr> in
            case getAllEnvVars w (prefix options) of
              Inl err \<Rightarrow>
                (m1\<lparr>isLoading := False\<rparr>, h\<lparr>error := Some (failed_message err)\<rparr>)
            | Inr vars \<Rightarrow>
                (let varsWithFallbacks = applyFallbacks vars fb;
                     missing = missingVars varsWithFallbacks req;
                     err = (if length missing > 0
                            then Some (missing_message missing (prefixHint (prefix options)))
                            else None)
                 in (m1\<lparr>envCache := Some varsWithFallbacks, isLoading := False\<rparr>,
                     \<lparr>envVars = varsWithFallbacks, error = err\<rparr>)))
         else (m, h))"

text \<open>
  Whether React runs the effect after a render: on mount, or when a dependency is not the
  one of the previous render. \<open>deps_changed\<close> says that the caller passed a \<open>prefix\<close>,
  \<open>required\<close> or \<open>fallbacks\<close> that differs from the previous render's; an omitted
  \<open>required\<close> or \<open>fallbacks\<close> is the fresh default \<open>[]\<close> or \<open>{}\<close> of this call, which
  never is the previous one.
\<close>

definition effect_runs :: "UseEnvOptions \<Rightarrow> bool \<Rightarrow> hook_state option \<Rightarrow> bool" where
  "effect_runs options deps_changed hk =
     (hk = None \<or> deps_changed \<or> required options = None \<or> fallbacks options = None)"

text \<open>
  One invocation of the accessor by a component: the render, then the effect when React runs
  it. The first component of the argument is the module state, the second the instance
  (\<open>None\<close> before it is mounted). The result is the state of module and instance after the
  effect, and the mapping that this invocation returned to its caller.
\<close>

definition useEnv_invoke ::
  "world \<Rightarrow> UseEnvOptions \<Rightarrow> bool \<Rightarrow> module_state \<times> hook_state option
     \<Rightarrow> string + (module_state \<times> hook_state \<times> EnvVars)" where
  "useEnv_invoke w options deps_changed s =
     (case useEnv_render w options (fst s) (snd s) of
        Inl e \<Rightarrow> Inl e
      | Inr (h, r) \<Rightarrow>
          (let s' = (if effect_runs options deps_changed (snd s)
                     then useEnv_effect w options (fst s, h) else (fst s, h))
           in Inr (fst s', snd s', r)))"

text \<open>
  The same invocation, with the mapping on which it settles in place of the one it returned:
  the mapping that the instance holds after the effect, which a render following the
  \<open>setEnvVars\<close> or \<open>setError\<close> of the effect returns. An effect after that render changes
  nothing in the same environment (\<open>useEnv_effect_idem\<close> below).
\<close>

definition useEnv_call ::
  "world \<Rightarrow> UseEnvOptions \<Rightarrow> bool \<Rightarrow> module_state \<times> hook_state option
     \<Rightarrow> string + (module_state \<times> hook_state \<times> EnvVars)" where
  "useEnv_call w options deps_changed s =
     (case useEnv_render w options (fst s) (snd s) of
        Inl e \<Rightarrow> Inl e
      | Inr (h, r) \<Rightarrow>
          (let s' = (if effect_runs options deps_changed (snd s)
                     then useEnv_effect w options (fst s, h) else (fst s, h))
           in Inr (fst s', snd s', envVars (snd s'))))"

definition no_options :: UseEnvOptions where
  "no_options = \<lparr>prefix = None, required = None, fallbacks = None\<rparr>"


definition clearEnvCache :: "module_state \<Rightarrow> module_state" where
  "clearEnvCache m = m\<lparr>envCache := None\<rparr>"

text \<open>The module as loaded: \<open>let envCache = null; let isLoading = false\<close>.\<close>

definition initial_module :: module_state where
  "initial_module = \<lparr>envCache = None, isLoading = False\<rparr>"

section \<open>Notions of the specification\<close>

text \<open>
  These definitions follow the words of the specification, not the code. The keys of the
  ambient map that are to be exposed in the browser: bound to a value other than
  \<open>undefined\<close> and starting with one of the prefixes.
\<close>

definition starts_with_some :: "string list \<Rightarrow> string \<Rightarrow> bool" where
  "starts_with_some prefixes k = (\<exists>p \<in> set prefixes. take (length p) k = p)"

definition is_exposed :: "EnvVars \<Rightarrow> string list \<Rightarrow> string \<Rightarrow> bool" where
  "is_exposed env prefixes k = (obj_get env k \<noteq> None \<and> starts_with_some prefixes k)"

definition exposed_keys :: "EnvVars \<Rightarrow> string list \<Rightarrow> string list" where
  "exposed_keys env prefixes = filter (is_exposed env prefixes) (obj_keys env)"

text \<open>
  The stripped name as the specification words it: the prefixes are tried in their declared
  order and the first one that the key starts with is removed, nothing else.
\<close>

fun strip_first :: "string list \<Rightarrow> string \<Rightarrow> string" where
  "strip_first [] k = k"
| "strip_first (p # ps) k =
     (if take (length p) k = p then drop (length p) k else strip_first ps k)"

text \<open>
  The keys on which no later prefix of the list matches what is left once the first matching
  prefix is removed (every key, when the list is a single custom prefix).
\<close>

fun strips_once :: "string list \<Rightarrow> string \<Rightarrow> bool" where
  "strips_once [] k = True"
| "strips_once (p # ps) k =
     (if take (length p) k = p then \<not> starts_with_some ps (drop (length p) k)
      else strips_once ps k)"

text \<open>The exposed keys that have the name \<open>n\<close> as their original or stripped name.\<close>

definition bearers :: "EnvVars \<Rightarrow> string list \<Rightarrow> string \<Rightarrow> string list" where
  "bearers env prefixes n =
     filter (\<lambda>k. n = k \<or> n = strip_first prefixes k) (exposed_keys env prefixes)"

section \<open>Auxiliary facts\<close>

subsection \<open>Objects: reading after writing\<close>

lemma map_of_obj_put: "map_of (obj_put obj k v) = (map_of obj)(k \<mapsto> v)"
  by (induction obj) auto

lemma obj_keys_obj_put: "set (obj_keys (obj_put obj k v)) = insert k (set (obj_keys obj))"
  by (simp add: obj_keys_def dom_map_of_conv_image_fst [symmetric] map_of_obj_put)

lemma obj_keys_obj_set:
  "set (obj_keys (obj_set obj k v)) =
     (if k = ''__proto__'' \<and> k \<notin> set (obj_keys obj) then set (obj_keys obj)
      else insert k (set (obj_keys obj)))"
  by (auto simp: obj_set_def obj_keys_obj_put)

lemma obj_get_obj_set:
  "n \<noteq> ''__proto__'' \<Longrightarrow> obj_get (obj_set obj k v) n = (if n = k then v else obj_get obj n)"
  by (cases v) (auto simp: obj_set_def obj_get_def map_of_obj_put)

lemma not_own_iff: "k \<notin> set (obj_keys obj) \<longleftrightarrow> map_of obj k = None"
  by (simp add: obj_keys_def map_of_eq_None_iff)

lemma proto_inherited: "''__proto__'' \<in> set Object_prototype"
  by (simp add: Object_prototype_def)

lemma obj_read_obj_set:
  assumes "obj_read obj k = Undefined"
  shows "obj_read (obj_set obj k v) k' =
           (if k' = k then (case v of None \<Rightarrow> Undefined | Some s \<Rightarrow> Str s) else obj_read obj k')"
proof -
  have "map_of obj k = None \<Longrightarrow> k \<notin> set Object_prototype"
    using assms by (simp add: obj_read_def split: if_splits)
  then have "\<not> (k = ''__proto__'' \<and> k \<notin> set (obj_keys obj))"
    using proto_inherited by (auto simp: not_own_iff)
  then have "obj_set obj k v = obj_put obj k v" by (auto simp: obj_set_def)
  then show ?thesis by (simp add: obj_read_def map_of_obj_put split: option.splits)
qed

subsection \<open>The scan of the resolver\<close>

lemma getAllEnvVars_browser:
  "window_defined w \<Longrightarrow> env_throws w = None \<Longrightarrow>
   getAllEnvVars w cp
     = Inr (foldl (forEach_key (process_env w) (prefixes_of cp)) [] (obj_keys (process_env w)))"
  by (simp add: getAllEnvVars_def)

lemma getAllEnvVars_Inr: "getAllEnvVars w cp = Inr vars \<Longrightarrow> env_throws w = None"
  by (simp add: getAllEnvVars_def split: option.splits)

lemma hasValidPrefix_iff: "hasValidPrefix P k = starts_with_some P k"
  by (simp add: hasValidPrefix_def starts_with_some_def startsWith_def list_ex_iff)

lemma forEach_key_get:
  "n \<noteq> ''__proto__'' \<Longrightarrow>
   obj_get (forEach_key env P acc key) n =
     (if is_exposed env P key \<and> (n = key \<or> n = cleanKey P key)
      then obj_get env key else obj_get acc n)"
  by (auto simp: forEach_key_def is_exposed_def hasValidPrefix_iff obj_get_obj_set
      split: option.splits)

lemma forEach_key_keys:
  assumes "''__proto__'' \<notin> set (obj_keys acc)"
  shows "set (obj_keys (forEach_key env P acc key)) =
     set (obj_keys acc) \<union>
     (if is_exposed env P key then {key, cleanKey P key} - {''__proto__''} else {})"
  using assms
  by (auto simp: forEach_key_def is_exposed_def hasValidPrefix_iff obj_keys_obj_set
      split: option.splits)

lemma foldl_forEach_keys:
  assumes "''__proto__'' \<notin> set (obj_keys acc)"
  shows "set (obj_keys (foldl (forEach_key env P) acc ks)) =
     set (obj_keys acc) \<union>
     ((\<Union>k \<in> set (filter (is_exposed env P) ks). {k, cleanKey P k}) - {''__proto__''})"
  using assms
proof (induction ks arbitrary: acc)
  case Nil
  then show ?case by simp
next
  case (Cons a ks)
  have inv: "''__proto__'' \<notin> set (obj_keys (forEach_key env P acc a))"
    using Cons.prems by (simp add: forEach_key_keys)
  show ?case
    unfolding foldl_Cons Cons.IH [OF inv] forEach_key_keys [OF Cons.prems]
    by (cases "is_exposed env P a") auto
qed

lemma foldl_forEach_get_last:
  assumes "n \<noteq> ''__proto__''"
  shows "obj_get (foldl (forEach_key env P) acc ks) n =
     (if filter (\<lambda>k. is_exposed env P k \<and> (n = k \<or> n = cleanKey P k)) ks = []
      then obj_get acc n
      else obj_get env (last (filter (\<lambda>k. is_exposed env P k \<and> (n = k \<or> n = cleanKey P k)) ks)))"
proof (induction ks rule: rev_induct)
  case Nil
  then show ?case by simp
next
  case (snoc x xs)
  let ?Q = "\<lambda>k. is_exposed env P k \<and> (n = k \<or> n = cleanKey P k)"
  show ?case
  proof (cases "?Q x")
    case True
    then have "filter ?Q (xs @ [x]) = filter ?Q xs @ [x]" by simp
    moreover have "obj_get (foldl (forEach_key env P) acc (xs @ [x])) n = obj_get env x"
      using assms True by (simp add: forEach_key_get)
    ultimately show ?thesis by simp
  next
    case False
    then have "filter ?Q (xs @ [x]) = filter ?Q xs" by simp
    moreover have "obj_get (foldl (forEach_key env P) acc (xs @ [x])) n
                     = obj_get (foldl (forEach_key env P) acc xs) n"
      using assms False by (auto simp: forEach_key_get)
    ultimately show ?thesis using snoc.IH by simp
  qed
qed

subsection \<open>The stripped name\<close>

lemma cleanKey_Cons:
  "cleanKey (p # ps) k = cleanKey ps (if startsWith k p then slice k (length p) else k)"
  by (simp add: cleanKey_def)

lemma cleanKey_no_prefix: "\<not> starts_with_some ps k \<Longrightarrow> cleanKey ps k = k"
proof (induction ps)
  case Nil
  then show ?case by (simp add: cleanKey_def)
next
  case (Cons p ps)
  then show ?case by (simp add: cleanKey_Cons starts_with_some_def startsWith_def)
qed

lemma strips_once_cleanKey: "strips_once P k \<Longrightarrow> cleanKey P k = strip_first P k"
proof (induction P)
  case Nil
  then show ?case by (simp add: cleanKey_def)
next
  case (Cons p ps)
  then show ?case by (simp add: cleanKey_Cons cleanKey_no_prefix startsWith_def slice_def)
qed

lemma set_exposed_keys:
  "set (exposed_keys env P) = {k \<in> set (obj_keys env). is_exposed env P k}"
  by (simp add: exposed_keys_def)

lemma bearers_filter:
  assumes "\<forall>k \<in> set (exposed_keys env P). strips_once P k"
  shows "filter (\<lambda>k. is_exposed env P k \<and> (n = k \<or> n = cleanKey P k)) (obj_keys env)
           = bearers env P n"
proof -
  have "filter (\<lambda>k. n = k \<or> n = strip_first P k) (exposed_keys env P)
          = filter (\<lambda>k. n = k \<or> n = cleanKey P k) (exposed_keys env P)"
    using assms by (intro filter_cong) (simp_all add: strips_once_cleanKey)
  then show ?thesis
    by (simp add: bearers_def exposed_keys_def conj_commute)
qed

lemma resolved_keys:
  assumes "\<forall>k \<in> set (exposed_keys env P). strips_once P k"
  shows "set (obj_keys (foldl (forEach_key env P) [] (obj_keys env)))
     = (set (exposed_keys env P) \<union> strip_first P ` set (exposed_keys env P)) - {''__proto__''}"
proof -
  have "(\<Union>k \<in> set (exposed_keys env P). {k, cleanKey P k})
          = set (exposed_keys env P) \<union> strip_first P ` set (exposed_keys env P)"
    using assms by (auto simp: strips_once_cleanKey)
  moreover have "set (obj_keys (foldl (forEach_key env P) [] (obj_keys env)))
     = (\<Union>k \<in> set (exposed_keys env P). {k, cleanKey P k}) - {''__proto__''}"
    using foldl_forEach_keys [of "[]" env P "obj_keys env"]
    by (simp add: exposed_keys_def obj_keys_def)
  ultimately show ?thesis by simp
qed

lemma resolved_get:
  assumes "\<forall>k \<in> set (exposed_keys env P). strips_once P k" and "n \<noteq> ''__proto__''"
  shows "obj_get (foldl (forEach_key env P) [] (obj_keys env)) n =
     (if bearers env P n = [] then None else obj_get env (last (bearers env P n)))"
proof -
  have "obj_get [] n = None" by (simp add: obj_get_def)
  then show ?thesis
    using foldl_forEach_get_last [OF assms(2), of env P "[]" "obj_keys env"]
    unfolding bearers_filter [OF assms(1)] by simp
qed

lemma bearers_unique:
  assumes "k \<in> set (exposed_keys env P)" and "n = k \<or> n = strip_first P k"
    and "\<forall>k' \<in> set (exposed_keys env P). k' \<noteq> k \<longrightarrow> n \<noteq> k' \<and> n \<noteq> strip_first P k'"
  shows "bearers env P n \<noteq> [] \<and> last (bearers env P n) = k"
proof -
  have ne: "k \<in> set (bearers env P n)" using assms(1,2) by (simp add: bearers_def)
  then have "bearers env P n \<noteq> []" by auto
  moreover have "\<forall>x \<in> set (bearers env P n). x = k"
    using assms(3) by (auto simp: bearers_def)
  ultimately show ?thesis using last_in_set by blast
qed

subsection \<open>The fallback merge\<close>

lemma applyFallbacks_fold_read:
  "obj_read (foldl (\<lambda>acc key. if obj_read acc key = Undefined then obj_set acc key (map_of fb key) else acc)
              acc ks) K =
     (if obj_read acc K = Undefined \<and> K \<in> set ks
      then (case map_of fb K of None \<Rightarrow> Undefined | Some f \<Rightarrow> Str f) else obj_read acc K)"
proof (induction ks arbitrary: acc)
  case Nil
  then show ?case by simp
next
  case (Cons a ks)
  show ?case unfolding foldl_Cons Cons.IH
    by (auto simp: obj_read_obj_set split: option.splits)
qed

lemma applyFallbacks_read:
  "obj_read (applyFallbacks vars fb) K =
     (case obj_read vars K of
        Undefined \<Rightarrow> (case map_of fb K of None \<Rightarrow> Undefined | Some f \<Rightarrow> Str f)
      | v \<Rightarrow> v)"
proof (cases "K \<in> set (map fst fb)")
  case True
  then show ?thesis
    by (simp add: applyFallbacks_def applyFallbacks_fold_read split: js_value.splits)
next
  case False
  then have "map_of fb K = None" by (simp add: map_of_eq_None_iff)
  with False show ?thesis
    by (simp add: applyFallbacks_def applyFallbacks_fold_read split: js_value.splits)
qed

lemma applyFallbacks_Nil: "applyFallbacks vars [] = vars"
  by (simp add: applyFallbacks_def)

subsection \<open>The effect and the render, case by case\<close>

lemma useEnv_effect_skip:
  "envCache m \<noteq> None \<or> isLoading m \<Longrightarrow> useEnv_effect w options (m, h) = (m, h)"
  by (auto simp: useEnv_effect_def Let_def)

lemma useEnv_effect_Inl:
  "envCache m = None \<Longrightarrow> \<not> isLoading m \<Longrightarrow> getAllEnvVars w (prefix options) = Inl e
   \<Longrightarrow> useEnv_effect w options (m, h) = (m, h\<lparr>error := Some (failed_message e)\<rparr>)"
  by (simp add: useEnv_effect_def Let_def)

lemma useEnv_effect_Inr:
  "envCache m = None \<Longrightarrow> \<not> isLoading m \<Longrightarrow> getAllEnvVars w (prefix options) = Inr vars
   \<Longrightarrow> envCache (fst (useEnv_effect w options (m, h)))
         = Some (applyFallbacks vars (case fallbacks options of None \<Rightarrow> [] | Some f \<Rightarrow> f)) \<and>
       isLoading (fst (useEnv_effect w options (m, h))) = False \<and>
       envVars (snd (useEnv_effect w options (m, h)))
         = applyFallbacks vars (case fallbacks options of None \<Rightarrow> [] | Some f \<Rightarrow> f)"
  by (simp add: useEnv_effect_def Let_def)

lemma useEnv_effect_idem:
  "useEnv_effect w options (useEnv_effect w options s) = useEnv_effect w options s"
proof (cases s)
  case (Pair m h)
  show ?thesis
  proof (cases "envCache m = None \<and> \<not> isLoading m")
    case False
    then show ?thesis using Pair by (auto simp: useEnv_effect_skip)
  next
    case True
    show ?thesis
    proof (cases "getAllEnvVars w (prefix options)")
      case (Inl e)
      with True Pair show ?thesis by (simp add: useEnv_effect_Inl)
    next
      case (Inr vars)
      obtain m' h' where e: "useEnv_effect w options (m, h) = (m', h')"
        by (cases "useEnv_effect w options (m, h)")
      with useEnv_effect_Inr [of m w options vars h] True Inr have "envCache m' \<noteq> None" by simp
      then show ?thesis using Pair e by (simp add: useEnv_effect_skip)
    qed
  qed
qed

lemma useEnv_render_mounted:
  "useEnv_render w options m (Some h) =
     (case useEnv_log w h of Some e \<Rightarrow> Inl e | None \<Rightarrow> Inr (h, envVars h))"
  by (simp add: useEnv_render_def)

lemma useEnv_render_mount:
  "useEnv_render w options m None =
     (case useEnv_init w options m of
        Inl e \<Rightarrow> Inl e
      | Inr v \<Rightarrow> Inr (\<lparr>envVars = v, error = None\<rparr>, v))"
  by (simp add: useEnv_render_def useEnv_log_def split: sum.splits)

lemma useEnv_render_Inr:
  "useEnv_render w options m hk = Inr (h, r) \<Longrightarrow> r = envVars h \<and> useEnv_log w h = None"
  by (cases hk)
    (auto simp: useEnv_render_mounted useEnv_render_mount useEnv_log_def split: option.splits sum.splits)

lemma useEnv_invoke_pair:
  "useEnv_invoke w options deps_changed (m, hk) =
     (case useEnv_render w options m hk of
        Inl e \<Rightarrow> Inl e
      | Inr (h, r) \<Rightarrow>
          Inr (fst (if effect_runs options deps_changed hk
                    then useEnv_effect w options (m, h) else (m, h)),
               snd (if effect_runs options deps_changed hk
                    then useEnv_effect w options (m, h) else (m, h)),
               r))"
  by (simp add: useEnv_invoke_def Let_def split: sum.splits cong: if_cong)

lemma useEnv_call_pair:
  "useEnv_call w options deps_changed (m, hk) =
     (case useEnv_render w options m hk of
        Inl e \<Rightarrow> Inl e
      | Inr (h, r) \<Rightarrow>
          Inr (fst (if effect_runs options deps_changed hk
                    then useEnv_effect w options (m, h) else (m, h)),
               snd (if effect_runs options deps_changed hk
                    then useEnv_effect w options (m, h) else (m, h)),
               envVars (snd (if effect_runs options deps_changed hk
                             then useEnv_effect w options (m, h) else (m, h)))))"
  by (simp add: useEnv_call_def Let_def split: sum.splits cong: if_cong)

subsection \<open>Unfolding the model on concrete inputs\<close>

lemmas resolver_eval = getAllEnvVars_def obj_keys_def forEach_key_def obj_get_def obj_set_def
  prefixes_of_def hasValidPrefix_def cleanKey_def default_prefixes_def startsWith_def slice_def

lemmas hook_eval = useEnv_call_def useEnv_invoke_def useEnv_render_def useEnv_init_def
  useEnv_log_def useEnv_effect_def effect_runs_def applyFallbacks_def missingVars_def
  obj_read_def Object_prototype_def initial_module_def clearEnvCache_def Let_def

section \<open>C1: what the resolver returns\<close>

text \<open>
  C1, as amended. Outside the browser (no \<open>window\<close>) the resolver returns the ambient map
  itself, when \<open>process.env\<close> can be read. In the browser, for an ambient map whose exposed
  keys (bound to a value other than \<open>undefined\<close>, starting with one of the active prefixes)
  each lose only their first matching prefix: the keys of the output are exactly the original
  names of the exposed keys and their names without the first matching prefix, except the
  name \<open>__proto__\<close>, which is never added; each such name is bound to the unchanged ambient
  value of the last exposed key, in the order of the ambient map, that has it as its original
  or stripped name; so both names of an exposed key are bound to the key's own value whenever
  no other exposed key has that name.
\<close>

theorem getAllEnvVars_resolves:
  "(env_throws w = None \<and> \<not> window_defined w \<longrightarrow> getAllEnvVars w cp = Inr (process_env w)) \<and>
   (env_throws w = None \<and> window_defined w \<and>
    (\<forall>k \<in> set (exposed_keys (process_env w) (prefixes_of cp)). strips_once (prefixes_of cp) k) \<longrightarrow>
      (\<exists>out. getAllEnvVars w cp = Inr out \<and>
         set (obj_keys out) =
           (set (exposed_keys (process_env w) (prefixes_of cp)) \<union>
            strip_first (prefixes_of cp) ` set (exposed_keys (process_env w) (prefixes_of cp)))
           - {''__proto__''} \<and>
         (\<forall>n. n \<noteq> ''__proto__'' \<and> bearers (process_env w) (prefixes_of cp) n \<noteq> [] \<longrightarrow>
            obj_get out n
              = obj_get (process_env w) (last (bearers (process_env w) (prefixes_of cp) n))) \<and>
         (\<forall>k \<in> set (exposed_keys (process_env w) (prefixes_of cp)).
            \<forall>n \<in> {k, strip_first (prefixes_of cp) k}.
              n \<noteq> ''__proto__'' \<and>
              (\<forall>k' \<in> set (exposed_keys (process_env w) (prefixes_of cp)).
                  k' \<noteq> k \<longrightarrow> n \<noteq> k' \<and> n \<noteq> strip_first (prefixes_of cp) k')
              \<longrightarrow> obj_get out n = obj_get (process_env w) k)))"
proof (intro conjI impI)
  assume "env_throws w = None \<and> \<not> window_defined w"
  then show "getAllEnvVars w cp = Inr (process_env w)" by (simp add: getAllEnvVars_def)
next
  assume b: "env_throws w = None \<and> window_defined w \<and>
    (\<forall>k \<in> set (exposed_keys (process_env w) (prefixes_of cp)). strips_once (prefixes_of cp) k)"
  define M where "M = process_env w"
  define P where "P = prefixes_of cp"
  define out where "out = foldl (forEach_key M P) [] (obj_keys M)"
  have once: "\<forall>k \<in> set (exposed_keys M P). strips_once P k" using b by (simp add: M_def P_def)
  have r: "getAllEnvVars w cp = Inr out"
    using b by (simp add: getAllEnvVars_browser out_def M_def P_def)
  have ks: "set (obj_keys out)
              = (set (exposed_keys M P) \<union> strip_first P ` set (exposed_keys M P)) - {''__proto__''}"
    unfolding out_def by (rule resolved_keys [OF once])
  have lst: "\<forall>n. n \<noteq> ''__proto__'' \<and> bearers M P n \<noteq> [] \<longrightarrow>
               obj_get out n = obj_get M (last (bearers M P n))"
    unfolding out_def by (simp add: resolved_get [OF once])
  have vs: "\<forall>k \<in> set (exposed_keys M P). \<forall>n \<in> {k, strip_first P k}.
              n \<noteq> ''__proto__'' \<and>
              (\<forall>k' \<in> set (exposed_keys M P). k' \<noteq> k \<longrightarrow> n \<noteq> k' \<and> n \<noteq> strip_first P k')
              \<longrightarrow> obj_get out n = obj_get M k"
  proof (intro ballI impI)
    fix k n
    assume k: "k \<in> set (exposed_keys M P)" and n: "n \<in> {k, strip_first P k}"
      and u: "n \<noteq> ''__proto__'' \<and>
              (\<forall>k' \<in> set (exposed_keys M P). k' \<noteq> k \<longrightarrow> n \<noteq> k' \<and> n \<noteq> strip_first P k')"
    from n have "n = k \<or> n = strip_first P k" by auto
    from bearers_unique [OF k this] u
    have "bearers M P n \<noteq> [] \<and> last (bearers M P n) = k" by blast
    with lst u show "obj_get out n = obj_get M k" by simp
  qed
  from r ks lst vs
  show "\<exists>out. getAllEnvVars w cp = Inr out \<and>
         set (obj_keys out) =
           (set (exposed_keys (process_env w) (prefixes_of cp)) \<union>
            strip_first (prefixes_of cp) ` set (exposed_keys (process_env w) (prefixes_of cp)))
           - {''__proto__''} \<and>
         (\<forall>n. n \<noteq> ''__proto__'' \<and> bearers (process_env w) (prefixes_of cp) n \<noteq> [] \<longrightarrow>
            obj_get out n
              = obj_get (process_env w) (last (bearers (process_env w) (prefixes_of cp) n))) \<and>
         (\<forall>k \<in> set (exposed_keys (process_env w) (prefixes_of cp)).
            \<forall>n \<in> {k, strip_first (prefixes_of cp) k}.
              n \<noteq> ''__proto__'' \<and>
              (\<forall>k' \<in> set (exposed_keys (process_env w) (prefixes_of cp)).
                  k' \<noteq> k \<longrightarrow> n \<noteq> k' \<and> n \<noteq> strip_first (prefixes_of cp) k')
              \<longrightarrow> obj_get out n = obj_get (process_env w) k)"
    unfolding M_def P_def by blast
qed

text \<open>
  The first end-to-end scenario of the specification, with a second key of the same stripped
  name added: \<open>REACT_APP_API_URL\<close> and \<open>VITE_API_URL\<close> are exposed under their own names,
  \<open>API_URL\<close> has the value of the later of the two, and \<open>OTHER\<close> is not exposed.
\<close>

theorem getAllEnvVars_resolves_witness:
  "env_throws \<lparr>window_defined = True,
      process_env = [(''REACT_APP_API_URL'', Some ''https://x''), (''OTHER'', Some ''y''),
                     (''VITE_API_URL'', Some ''https://v'')],
      env_throws = None\<rparr> = None \<and>
   (\<exists>out. getAllEnvVars \<lparr>window_defined = True,
              process_env = [(''REACT_APP_API_URL'', Some ''https://x''), (''OTHER'', Some ''y''),
                             (''VITE_API_URL'', Some ''https://v'')],
              env_throws = None\<rparr> None = Inr out \<and>
          set (obj_keys out) = {''REACT_APP_API_URL'', ''VITE_API_URL'', ''API_URL''} \<and>
          obj_get out ''API_URL'' = Some ''https://v'' \<and>
          obj_get out ''REACT_APP_API_URL'' = Some ''https://x'')"
proof -
  define w where "w = \<lparr>window_defined = True,
      process_env = [(''REACT_APP_API_URL'', Some ''https://x''), (''OTHER'', Some ''y''),
                     (''VITE_API_URL'', Some ''https://v'')],
      env_throws = None\<rparr>"
  have e: "exposed_keys (process_env w) (prefixes_of None) = [''REACT_APP_API_URL'', ''VITE_API_URL'']"
    by (simp add: w_def exposed_keys_def is_exposed_def obj_keys_def obj_get_def prefixes_of_def
        starts_with_some_def default_prefixes_def)
  have c: "strip_first (prefixes_of None) ''REACT_APP_API_URL'' = ''API_URL''"
    "strip_first (prefixes_of None) ''VITE_API_URL'' = ''API_URL''"
    by (simp_all add: prefixes_of_def default_prefixes_def)
  have o: "strips_once (prefixes_of None) ''REACT_APP_API_URL''"
    "strips_once (prefixes_of None) ''VITE_API_URL''"
    by (simp_all add: prefixes_of_def default_prefixes_def starts_with_some_def)
  have g: "obj_get (process_env w) ''REACT_APP_API_URL'' = Some ''https://x''"
    "obj_get (process_env w) ''VITE_API_URL'' = Some ''https://v''"
    by (simp_all add: w_def obj_get_def)
  have b1: "bearers (process_env w) (prefixes_of None) ''API_URL'' = [''REACT_APP_API_URL'', ''VITE_API_URL'']"
    by (simp add: bearers_def e c)
  have b: "env_throws w = None \<and> window_defined w \<and>
    (\<forall>k \<in> set (exposed_keys (process_env w) (prefixes_of None)). strips_once (prefixes_of None) k)"
    by (simp add: e o) (simp add: w_def)
  note T = getAllEnvVars_resolves [of w None, THEN conjunct2, THEN mp, OF b]
  then obtain out where all: "getAllEnvVars w None = Inr out \<and>
         set (obj_keys out) =
           (set (exposed_keys (process_env w) (prefixes_of None)) \<union>
            strip_first (prefixes_of None) ` set (exposed_keys (process_env w) (prefixes_of None)))
           - {''__proto__''} \<and>
         (\<forall>n. n \<noteq> ''__proto__'' \<and> bearers (process_env w) (prefixes_of None) n \<noteq> [] \<longrightarrow>
            obj_get out n
              = obj_get (process_env w) (last (bearers (process_env w) (prefixes_of None) n))) \<and>
         (\<forall>k \<in> set (exposed_keys (process_env w) (prefixes_of None)).
            \<forall>n \<in> {k, strip_first (prefixes_of None) k}.
              n \<noteq> ''__proto__'' \<and>
              (\<forall>k' \<in> set (exposed_keys (process_env w) (prefixes_of None)).
                  k' \<noteq> k \<longrightarrow> n \<noteq> k' \<and> n \<noteq> strip_first (prefixes_of None) k')
              \<longrightarrow> obj_get out n = obj_get (process_env w) k)" ..
  note r = all [THEN conjunct1]
  note ks = all [THEN conjunct2, THEN conjunct1]
  note lst = all [THEN conjunct2, THEN conjunct2, THEN conjunct1]
  note vs = all [THEN conjunct2, THEN conjunct2, THEN conjunct2]
  from ks have k: "set (obj_keys out) = {''REACT_APP_API_URL'', ''VITE_API_URL'', ''API_URL''}"
    by (auto simp: e c)
  from lst [rule_format, of "''API_URL''"] have v1: "obj_get out ''API_URL'' = Some ''https://v''"
    by (simp add: b1 g)
  from vs [rule_format, of "''REACT_APP_API_URL''" "''REACT_APP_API_URL''"]
  have v2: "obj_get out ''REACT_APP_API_URL'' = Some ''https://x''"
    by (simp add: e c g)
  show ?thesis using b r k v1 v2 unfolding w_def by blast
qed

text \<open>
  C1 as written fails in two ways. Two ambient keys with the same cleaned name overwrite each
  other: \<open>X\<close> ends up bound to the value of \<open>VITE_X\<close>, not to the value of \<open>REACT_APP_X\<close>.
  And a key that starts with a prefix but is bound to \<open>undefined\<close> is not in the output.
\<close>

theorem getAllEnvVars_counterexample:
  "getAllEnvVars \<lparr>window_defined = True,
      process_env = [(''REACT_APP_X'', Some ''1''), (''VITE_X'', Some ''2'')],
      env_throws = None\<rparr> None
     = Inr [(''X'', Some ''2''), (''REACT_APP_X'', Some ''1''), (''VITE_X'', Some ''2'')] \<and>
   cleanKey default_prefixes ''REACT_APP_X'' = ''X'' \<and>
   getAllEnvVars \<lparr>window_defined = True, process_env = [(''VITE_Y'', None)],
      env_throws = None\<rparr> None = Inr []"
  by (simp add: resolver_eval)

section \<open>C2: the cleaned key\<close>

text \<open>
  C2. The cleaned key should be the key without its first matching prefix. The \<open>reduce\<close>
  tests every prefix against the key as already shortened, so a second prefix is removed as
  well: \<open>REACT_APP_PUBLIC_KEY\<close> starts with \<open>REACT_APP_\<close>, without it the key is
  \<open>PUBLIC_KEY\<close>, and the resolver exposes it as \<open>KEY\<close>.
\<close>

theorem cleanKey_strips_two_prefixes:
  "hasValidPrefix default_prefixes ''REACT_APP_PUBLIC_KEY'' \<and>
   startsWith ''REACT_APP_PUBLIC_KEY'' ''REACT_APP_'' \<and>
   slice ''REACT_APP_PUBLIC_KEY'' (length ''REACT_APP_'') = ''PUBLIC_KEY'' \<and>
   cleanKey default_prefixes ''REACT_APP_PUBLIC_KEY'' = ''KEY'' \<and>
   getAllEnvVars \<lparr>window_defined = True,
       process_env = [(''REACT_APP_PUBLIC_KEY'', Some ''pk'')], env_throws = None\<rparr> None
     = Inr [(''KEY'', Some ''pk''), (''REACT_APP_PUBLIC_KEY'', Some ''pk'')]"
  by (simp add: resolver_eval)

section \<open>C3: the diagnostic for missing required keys\<close>

text \<open>
  C3. With no prefix supplied and the required key \<open>API_URL\<close> missing, the diagnostic
  lists \<open>API_URL\<close>, and its hint names three prefixes while the active default set has
  four: \<open>PUBLIC_\<close> is not in the hint.
\<close>

theorem useEnv_effect_hint_omits_PUBLIC:
  "useEnv_effect \<lparr>window_defined = True, process_env = [], env_throws = None\<rparr>
     \<lparr>prefix = None, required = Some [''API_URL''], fallbacks = None\<rparr>
     (initial_module, \<lparr>envVars = [], error = None\<rparr>)
   = (\<lparr>envCache = Some [], isLoading = False\<rparr>,
      \<lparr>envVars = [],
       error = Some (''Missing required environment variables: API_URL. '' @
                     ''Make sure they are prefixed with REACT_APP_/NEXT_PUBLIC_/VITE_ in your .env file.'')\<rparr>) \<and>
   prefixes_of None = [''REACT_APP_'', ''NEXT_PUBLIC_'', ''VITE_'', ''PUBLIC_'']"
  by (simp add: useEnv_effect_def initial_module_def getAllEnvVars_def obj_keys_def
        applyFallbacks_def missingVars_def obj_read_def Object_prototype_def missing_message_def
        prefixHint_def prefixes_of_def default_prefixes_def)

section \<open>C4: fallbacks do not override\<close>

text \<open>
  C4. When the resolution pass runs (no cache, no pass in progress) and the resolver succeeds,
  whatever fallbacks the configuration supplies, the mapping stored and returned gives, at
  every key, what the resolution gives there when that is not \<open>undefined\<close>, and the key's
  fallback when it is \<open>undefined\<close> and a fallback is supplied (\<open>undefined\<close> otherwise).
\<close>

theorem useEnv_effect_fallbacks:
  assumes "envCache m = None" and "\<not> isLoading m"
    and "getAllEnvVars w (prefix options) = Inr vars"
  shows "envCache (fst (useEnv_effect w (options\<lparr>fallbacks := fb\<rparr>) (m, h)))
           = Some (envVars (snd (useEnv_effect w (options\<lparr>fallbacks := fb\<rparr>) (m, h)))) \<and>
         obj_read (envVars (snd (useEnv_effect w (options\<lparr>fallbacks := fb\<rparr>) (m, h)))) K =
           (case obj_read vars K of
              Undefined \<Rightarrow>
                (case fb of
                   None \<Rightarrow> Undefined
                 | Some f \<Rightarrow> (case map_of f K of None \<Rightarrow> Undefined | Some d \<Rightarrow> Str d))
            | v \<Rightarrow> v)"
proof (cases fb)
  case None
  with assms show ?thesis
    by (simp add: useEnv_effect_def Let_def applyFallbacks_Nil split: js_value.splits)
next
  case (Some f)
  with assms show ?thesis
    by (simp add: useEnv_effect_def Let_def applyFallbacks_read split: js_value.splits)
qed

text \<open>
  The third end-to-end scenario of the specification: \<open>REACT_APP_PORT\<close> is the empty
  string, so \<open>PORT\<close> stays the empty string although a fallback \<open>3000\<close> is supplied.
\<close>

theorem useEnv_effect_fallbacks_witness:
  "envCache initial_module = None \<and> \<not> isLoading initial_module \<and>
   getAllEnvVars \<lparr>window_defined = True, process_env = [(''REACT_APP_PORT'', Some [])],
       env_throws = None\<rparr> None
     = Inr [(''PORT'', Some []), (''REACT_APP_PORT'', Some [])] \<and>
   obj_read (envVars (snd (useEnv_effect
       \<lparr>window_defined = True, process_env = [(''REACT_APP_PORT'', Some [])],
         env_throws = None\<rparr>
       \<lparr>prefix = None, required = Some [''PORT''], fallbacks = Some [(''PORT'', ''3000'')]\<rparr>
       (initial_module, \<lparr>envVars = [], error = None\<rparr>)))) ''PORT'' = Str []"
proof -
  define w where "w = \<lparr>window_defined = True, process_env = [(''REACT_APP_PORT'', Some [])],
       env_throws = None\<rparr>"
  have c: "envCache initial_module = None" and l: "\<not> isLoading initial_module"
    by (simp_all add: initial_module_def)
  have g: "getAllEnvVars w (prefix \<lparr>prefix = None, required = Some [''PORT''], fallbacks = None\<rparr>)
             = Inr [(''PORT'', Some []), (''REACT_APP_PORT'', Some [])]"
    by (simp add: w_def resolver_eval)
  have "obj_read (envVars (snd (useEnv_effect w
          (\<lparr>prefix = None, required = Some [''PORT''], fallbacks = None\<rparr>
             \<lparr>fallbacks := Some [(''PORT'', ''3000'')]\<rparr>)
          (initial_module, \<lparr>envVars = [], error = None\<rparr>)))) ''PORT'' = Str []"
    using useEnv_effect_fallbacks [OF c l g, of "Some [(''PORT'', ''3000'')]"
        "\<lparr>envVars = [], error = None\<rparr>" "''PORT''"]
    by (simp add: obj_read_def)
  with c l g show ?thesis by (simp add: w_def)
qed

section \<open>C5: invoking twice\<close>

text \<open>
  C5, as amended. Take two successive invocations by one instance with the same
  configuration, in the same environment, with no cache clear in between, both returning a
  mapping (\<open>r1\<close>, then \<open>r2\<close>). They return the same mapping unless the deferred pass of the
  first invocation filled the cache, in which case the second returns the mapping that was
  cached. When the first invocation mounts the instance on an empty cache, the second mapping
  is the first merged with the fallbacks, so the two agree wherever the first is not
  \<open>undefined\<close>. An invocation after the second returns \<open>r2\<close> again and changes nothing.
\<close>

theorem useEnv_invoke_twice:
  assumes "useEnv_invoke w options deps_changed (m, hk) = Inr (m1, h1, r1)"
    and "useEnv_invoke w options deps_changed (m1, Some h1) = Inr (m2, h2, r2)"
  shows "(r2 = r1 \<or> (envCache m = None \<and> \<not> isLoading m \<and> envCache m1 = Some r2)) \<and>
         (hk = None \<and> envCache m = None \<and> \<not> isLoading m \<longrightarrow>
            r2 = applyFallbacks r1 (case fallbacks options of None \<Rightarrow> [] | Some f \<Rightarrow> f)) \<and>
         (hk = None \<longrightarrow> (\<forall>K. obj_read r1 K \<noteq> Undefined \<longrightarrow> obj_read r2 K = obj_read r1 K)) \<and>
         useEnv_invoke w options deps_changed (m2, Some h2) = Inr (m2, h2, r2)"
proof -
  define fb where "fb = (case fallbacks options of None \<Rightarrow> [] | Some f \<Rightarrow> f)"
  from assms(1) obtain h where rd: "useEnv_render w options m hk = Inr (h, r1)"
    by (auto simp: useEnv_invoke_pair split: sum.splits)
  then have r1: "r1 = envVars h" by (simp add: useEnv_render_Inr)
  define s' where "s' = (if effect_runs options deps_changed hk
                         then useEnv_effect w options (m, h) else (m, h))"
  from assms(1) rd have s1: "m1 = fst s'" "h1 = snd s'"
    by (simp_all add: useEnv_invoke_pair s'_def)
  from assms(2) have rd2: "useEnv_render w options m1 (Some h1) = Inr (h1, r2)"
    by (auto simp: useEnv_invoke_pair useEnv_render_mounted split: sum.splits option.splits)
  then have r2: "r2 = envVars h1" by (simp add: useEnv_render_Inr)
  have stable: "(if effect_runs options deps_changed (Some h1)
                 then useEnv_effect w options (m1, h1) else (m1, h1)) = (m1, h1)"
  proof (cases "effect_runs options deps_changed (Some h1)")
    case True
    then have "effect_runs options deps_changed hk" by (auto simp: effect_runs_def)
    then have "s' = useEnv_effect w options (m, h)" by (simp add: s'_def)
    then have "useEnv_effect w options s' = s'" by (simp add: useEnv_effect_idem)
    then show ?thesis using s1 True by simp
  next
    case False
    then show ?thesis by simp
  qed
  with assms(2) rd2 have same: "m2 = m1" "h2 = h1"
    by (simp_all add: useEnv_invoke_pair)
  have again: "useEnv_invoke w options deps_changed (m2, Some h2) = Inr (m2, h2, r2)"
    using assms(2) same by simp
  have filled: "envCache m1 = Some (applyFallbacks vars fb) \<and> envVars h1 = applyFallbacks vars fb"
    if "effect_runs options deps_changed hk" "envCache m = None" "\<not> isLoading m"
      "getAllEnvVars w (prefix options) = Inr vars" for vars
    using useEnv_effect_Inr [OF that(2,3,4), of h] that(1) s1 by (simp add: s'_def fb_def)
  have kept: "envVars h1 = envVars h"
    if "\<not> (effect_runs options deps_changed hk \<and> envCache m = None \<and> \<not> isLoading m \<and>
            (\<exists>vars. getAllEnvVars w (prefix options) = Inr vars))"
  proof (cases "effect_runs options deps_changed hk \<and> envCache m = None \<and> \<not> isLoading m")
    case True
    with that obtain e where "getAllEnvVars w (prefix options) = Inl e"
      by (cases "getAllEnvVars w (prefix options)") auto
    with True s1 show ?thesis by (simp add: s'_def useEnv_effect_Inl)
  next
    case False
    then have "s' = (m, h)" by (auto simp: s'_def useEnv_effect_skip)
    with s1 show ?thesis by simp
  qed
  have one: "r2 = r1 \<or> (envCache m = None \<and> \<not> isLoading m \<and> envCache m1 = Some r2)"
  proof (cases "effect_runs options deps_changed hk \<and> envCache m = None \<and> \<not> isLoading m \<and>
            (\<exists>vars. getAllEnvVars w (prefix options) = Inr vars)")
    case True
    then obtain vars where "getAllEnvVars w (prefix options) = Inr vars" by blast
    with True filled [of vars] r2 show ?thesis by simp
  next
    case False
    from kept [OF False] r1 r2 show ?thesis by simp
  qed
  have two: "r2 = applyFallbacks r1 fb" if mount: "hk = None" "envCache m = None" "\<not> isLoading m"
  proof -
    from rd mount have g: "getAllEnvVars w (prefix options) = Inr r1"
      by (simp add: useEnv_render_mount useEnv_init_def split: sum.splits)
    have "effect_runs options deps_changed hk" using mount by (simp add: effect_runs_def)
    from filled [OF this mount(2,3) g] r2 show ?thesis by simp
  qed
  have three: "\<forall>K. obj_read r1 K \<noteq> Undefined \<longrightarrow> obj_read r2 K = obj_read r1 K" if mount: "hk = None"
  proof (cases "envCache m = None \<and> \<not> isLoading m")
    case True
    with two mount have "r2 = applyFallbacks r1 fb" by simp
    then show ?thesis by (simp add: applyFallbacks_read split: js_value.splits)
  next
    case False
    then have "s' = (if effect_runs options deps_changed hk then (m, h) else (m, h))"
      by (auto simp: s'_def useEnv_effect_skip)
    with s1 r1 r2 show ?thesis by simp
  qed
  have two': "hk = None \<and> envCache m = None \<and> \<not> isLoading m \<longrightarrow> r2 = applyFallbacks r1 fb"
    using two by simp
  have three':
    "hk = None \<longrightarrow> (\<forall>K. obj_read r1 K \<noteq> Undefined \<longrightarrow> obj_read r2 K = obj_read r1 K)"
    using three by simp
  show ?thesis
    unfolding fb_def [symmetric] by (intro conjI) (rule one, rule two', rule three', rule again)
qed

text \<open>
  A first invocation that mounts, resolves \<open>{REACT_APP_A: 1}\<close> and merges the fallback for
  \<open>PORT\<close>, and the next one.
\<close>

theorem useEnv_invoke_twice_witness:
  "useEnv_invoke
       \<lparr>window_defined = True, process_env = [(''REACT_APP_A'', Some ''1'')], env_throws = None\<rparr>
       \<lparr>prefix = None, required = Some [''A''], fallbacks = Some [(''PORT'', ''3000'')]\<rparr>
       False (initial_module, None)
     = Inr (\<lparr>envCache = Some [(''A'', Some ''1''), (''REACT_APP_A'', Some ''1''), (''PORT'', Some ''3000'')],
              isLoading = False\<rparr>,
            \<lparr>envVars = [(''A'', Some ''1''), (''REACT_APP_A'', Some ''1''), (''PORT'', Some ''3000'')],
              error = None\<rparr>,
            [(''A'', Some ''1''), (''REACT_APP_A'', Some ''1'')]) \<and>
   useEnv_invoke
       \<lparr>window_defined = True, process_env = [(''REACT_APP_A'', Some ''1'')], env_throws = None\<rparr>
       \<lparr>prefix = None, required = Some [''A''], fallbacks = Some [(''PORT'', ''3000'')]\<rparr>
       False
       (\<lparr>envCache = Some [(''A'', Some ''1''), (''REACT_APP_A'', Some ''1''), (''PORT'', Some ''3000'')],
           isLoading = False\<rparr>,
        Some \<lparr>envVars = [(''A'', Some ''1''), (''REACT_APP_A'', Some ''1''), (''PORT'', Some ''3000'')],
              error = None\<rparr>)
     = Inr (\<lparr>envCache = Some [(''A'', Some ''1''), (''REACT_APP_A'', Some ''1''), (''PORT'', Some ''3000'')],
              isLoading = False\<rparr>,
            \<lparr>envVars = [(''A'', Some ''1''), (''REACT_APP_A'', Some ''1''), (''PORT'', Some ''3000'')],
              error = None\<rparr>,
            [(''A'', Some ''1''), (''REACT_APP_A'', Some ''1''), (''PORT'', Some ''3000'')]) \<and>
   [(''A'', Some ''1''), (''REACT_APP_A'', Some ''1''), (''PORT'', Some ''3000'')]
     = applyFallbacks [(''A'', Some ''1''), (''REACT_APP_A'', Some ''1'')] [(''PORT'', ''3000'')]"
proof -
  have first: "useEnv_invoke
       \<lparr>window_defined = True, process_env = [(''REACT_APP_A'', Some ''1'')], env_throws = None\<rparr>
       \<lparr>prefix = None, required = Some [''A''], fallbacks = Some [(''PORT'', ''3000'')]\<rparr>
       False (initial_module, None)
     = Inr (\<lparr>envCache = Some [(''A'', Some ''1''), (''REACT_APP_A'', Some ''1''), (''PORT'', Some ''3000'')],
              isLoading = False\<rparr>,
            \<lparr>envVars = [(''A'', Some ''1''), (''REACT_APP_A'', Some ''1''), (''PORT'', Some ''3000'')],
              error = None\<rparr>,
            [(''A'', Some ''1''), (''REACT_APP_A'', Some ''1'')])"
    by (simp add: hook_eval resolver_eval)
  have second: "useEnv_invoke
       \<lparr>window_defined = True, process_env = [(''REACT_APP_A'', Some ''1'')], env_throws = None\<rparr>
       \<lparr>prefix = None, required = Some [''A''], fallbacks = Some [(''PORT'', ''3000'')]\<rparr>
       False
       (\<lparr>envCache = Some [(''A'', Some ''1''), (''REACT_APP_A'', Some ''1''), (''PORT'', Some ''3000'')],
           isLoading = False\<rparr>,
        Some \<lparr>envVars = [(''A'', Some ''1''), (''REACT_APP_A'', Some ''1''), (''PORT'', Some ''3000'')],
              error = None\<rparr>)
     = Inr (\<lparr>envCache = Some [(''A'', Some ''1''), (''REACT_APP_A'', Some ''1''), (''PORT'', Some ''3000'')],
              isLoading = False\<rparr>,
            \<lparr>envVars = [(''A'', Some ''1''), (''REACT_APP_A'', Some ''1''), (''PORT'', Some ''3000'')],
              error = None\<rparr>,
            [(''A'', Some ''1''), (''REACT_APP_A'', Some ''1''), (''PORT'', Some ''3000'')])"
    by (simp add: hook_eval resolver_eval)
  have c: "envCache initial_module = None \<and> \<not> isLoading initial_module"
    by (simp add: initial_module_def)
  from useEnv_invoke_twice [OF first second, THEN conjunct2, THEN conjunct1] c
  have "[(''A'', Some ''1''), (''REACT_APP_A'', Some ''1''), (''PORT'', Some ''3000'')]
     = applyFallbacks [(''A'', Some ''1''), (''REACT_APP_A'', Some ''1'')] [(''PORT'', ''3000'')]"
    by simp
  with first second show ?thesis by blast
qed

text \<open>
  C5 as written fails at the first two invocations of a mounting instance when a fallback adds
  a key: the first returns the resolution as it is, the second the mapping with \<open>PORT\<close>.
\<close>

theorem useEnv_invoke_twice_counterexample:
  "useEnv_invoke
       \<lparr>window_defined = True, process_env = [(''REACT_APP_B'', Some ''1'')], env_throws = None\<rparr>
       \<lparr>prefix = None, required = None, fallbacks = Some [(''PORT'', ''3000'')]\<rparr>
       False (initial_module, None)
     = Inr (\<lparr>envCache = Some [(''B'', Some ''1''), (''REACT_APP_B'', Some ''1''), (''PORT'', Some ''3000'')],
              isLoading = False\<rparr>,
            \<lparr>envVars = [(''B'', Some ''1''), (''REACT_APP_B'', Some ''1''), (''PORT'', Some ''3000'')],
              error = None\<rparr>,
            [(''B'', Some ''1''), (''REACT_APP_B'', Some ''1'')]) \<and>
   useEnv_invoke
       \<lparr>window_defined = True, process_env = [(''REACT_APP_B'', Some ''1'')], env_throws = None\<rparr>
       \<lparr>prefix = None, required = None, fallbacks = Some [(''PORT'', ''3000'')]\<rparr>
       False
       (\<lparr>envCache = Some [(''B'', Some ''1''), (''REACT_APP_B'', Some ''1''), (''PORT'', Some ''3000'')],
           isLoading = False\<rparr>,
        Some \<lparr>envVars = [(''B'', Some ''1''), (''REACT_APP_B'', Some ''1''), (''PORT'', Some ''3000'')],
              error = None\<rparr>)
     = Inr (\<lparr>envCache = Some [(''B'', Some ''1''), (''REACT_APP_B'', Some ''1''), (''PORT'', Some ''3000'')],
              isLoading = False\<rparr>,
            \<lparr>envVars = [(''B'', Some ''1''), (''REACT_APP_B'', Some ''1''), (''PORT'', Some ''3000'')],
              error = None\<rparr>,
            [(''B'', Some ''1''), (''REACT_APP_B'', Some ''1''), (''PORT'', Some ''3000'')])"
  by (simp add: hook_eval resolver_eval)

section \<open>C6: after clearing the cache\<close>

text \<open>
  C6, as amended. \<open>clearEnvCache\<close> is total, and after it the module is as it was when
  loaded. The next invocation that runs the effect (it mounts an instance, or a dependency
  of a mounted instance changed) settles on the fresh resolution, merged with the fallbacks,
  and caches it, whatever was cached or held before.
\<close>

theorem useEnv_call_after_clear:
  assumes "\<not> isLoading m"
    and "getAllEnvVars w (prefix options) = Inr vars"
    and "effect_runs options deps_changed hk"
  shows "clearEnvCache m = initial_module \<and>
         (\<exists>m' h'. useEnv_call w options deps_changed (clearEnvCache m, hk)
                     = Inr (m', h', applyFallbacks vars (case fallbacks options of None \<Rightarrow> [] | Some f \<Rightarrow> f)) \<and>
                  envCache m' = Some (applyFallbacks vars (case fallbacks options of None \<Rightarrow> [] | Some f \<Rightarrow> f)))"
proof -
  have i: "clearEnvCache m = initial_module" using assms(1)
    by (simp add: clearEnvCache_def initial_module_def)
  have c: "envCache initial_module = None" "\<not> isLoading initial_module"
    by (simp_all add: initial_module_def)
  have readable: "env_throws w = None" using assms(2) by (rule getAllEnvVars_Inr)
  have "\<exists>h. useEnv_render w options initial_module hk = Inr (h, envVars h)"
  proof (cases hk)
    case None
    then have "useEnv_render w options initial_module hk
                 = Inr (\<lparr>envVars = vars, error = None\<rparr>, envVars \<lparr>envVars = vars, error = None\<rparr>)"
      using assms(2) c by (simp add: useEnv_render_mount useEnv_init_def)
    then show ?thesis by blast
  next
    case (Some h0)
    have "useEnv_log w h0 = None" using readable by (simp add: useEnv_log_def split: option.splits)
    with Some show ?thesis by (simp add: useEnv_render_mounted)
  qed
  then obtain h where rd: "useEnv_render w options initial_module hk = Inr (h, envVars h)" by blast
  from useEnv_effect_Inr [OF c assms(2), of h] rd assms(3) i
  show ?thesis by (simp add: useEnv_call_pair)
qed

text \<open>
  The ambient value of \<open>REACT_APP_A\<close> has changed from 1 to 2; after the clear a newly
  mounted instance settles on the new value.
\<close>

theorem useEnv_call_after_clear_witness:
  "\<not> isLoading \<lparr>envCache = Some [(''A'', Some ''1''), (''REACT_APP_A'', Some ''1'')], isLoading = False\<rparr> \<and>
   getAllEnvVars
       \<lparr>window_defined = True, process_env = [(''REACT_APP_A'', Some ''2'')], env_throws = None\<rparr> None
     = Inr [(''A'', Some ''2''), (''REACT_APP_A'', Some ''2'')] \<and>
   effect_runs \<lparr>prefix = None, required = Some [''A''], fallbacks = Some [(''PORT'', ''3000'')]\<rparr>
       False None \<and>
   (\<exists>m' h'. useEnv_call
       \<lparr>window_defined = True, process_env = [(''REACT_APP_A'', Some ''2'')], env_throws = None\<rparr>
       \<lparr>prefix = None, required = Some [''A''], fallbacks = Some [(''PORT'', ''3000'')]\<rparr> False
       (clearEnvCache \<lparr>envCache = Some [(''A'', Some ''1''), (''REACT_APP_A'', Some ''1'')],
                        isLoading = False\<rparr>, None)
     = Inr (m', h', [(''A'', Some ''2''), (''REACT_APP_A'', Some ''2''), (''PORT'', Some ''3000'')]))"
proof -
  have l: "\<not> isLoading \<lparr>envCache = Some [(''A'', Some ''1''), (''REACT_APP_A'', Some ''1'')], isLoading = False\<rparr>"
    by simp
  have g: "getAllEnvVars
       \<lparr>window_defined = True, process_env = [(''REACT_APP_A'', Some ''2'')], env_throws = None\<rparr>
       (prefix \<lparr>prefix = None, required = Some [''A''], fallbacks = Some [(''PORT'', ''3000'')]\<rparr>)
     = Inr [(''A'', Some ''2''), (''REACT_APP_A'', Some ''2'')]"
    by (simp add: resolver_eval)
  have r: "effect_runs \<lparr>prefix = None, required = Some [''A''], fallbacks = Some [(''PORT'', ''3000'')]\<rparr>
       False None"
    by (simp add: effect_runs_def)
  have a: "applyFallbacks [(''A'', Some ''2''), (''REACT_APP_A'', Some ''2'')] [(''PORT'', ''3000'')]
             = [(''A'', Some ''2''), (''REACT_APP_A'', Some ''2''), (''PORT'', Some ''3000'')]"
    by (simp add: applyFallbacks_def obj_read_def Object_prototype_def obj_set_def obj_keys_def)
  from useEnv_call_after_clear [OF l g r] l g r a show ?thesis by auto
qed

text \<open>
  C6 as written fails for a mounted instance whose \<open>required\<close> and \<open>fallbacks\<close> are the
  same objects as at its previous render: after the clear, with \<open>REACT_APP_A\<close> changed
  from 1 to 2, its next invocation runs no effect and returns the mapping computed before
  the clear, and the cache stays empty.
\<close>

theorem useEnv_call_after_clear_counterexample:
  "useEnv_call
       \<lparr>window_defined = True, process_env = [(''REACT_APP_A'', Some ''1'')], env_throws = None\<rparr>
       \<lparr>prefix = None, required = Some [''A''], fallbacks = Some [(''PORT'', ''3000'')]\<rparr>
       False (initial_module, None)
     = Inr (\<lparr>envCache = Some [(''A'', Some ''1''), (''REACT_APP_A'', Some ''1''), (''PORT'', Some ''3000'')],
              isLoading = False\<rparr>,
            \<lparr>envVars = [(''A'', Some ''1''), (''REACT_APP_A'', Some ''1''), (''PORT'', Some ''3000'')],
              error = None\<rparr>,
            [(''A'', Some ''1''), (''REACT_APP_A'', Some ''1''), (''PORT'', Some ''3000'')]) \<and>
   useEnv_call
       \<lparr>window_defined = True, process_env = [(''REACT_APP_A'', Some ''2'')], env_throws = None\<rparr>
       \<lparr>prefix = None, required = Some [''A''], fallbacks = Some [(''PORT'', ''3000'')]\<rparr>
       False
       (clearEnvCache
          \<lparr>envCache = Some [(''A'', Some ''1''), (''REACT_APP_A'', Some ''1''), (''PORT'', Some ''3000'')],
            isLoading = False\<rparr>,
        Some \<lparr>envVars = [(''A'', Some ''1''), (''REACT_APP_A'', Some ''1''), (''PORT'', Some ''3000'')],
              error = None\<rparr>)
     = Inr (\<lparr>envCache = None, isLoading = False\<rparr>,
            \<lparr>envVars = [(''A'', Some ''1''), (''REACT_APP_A'', Some ''1''), (''PORT'', Some ''3000'')],
              error = None\<rparr>,
            [(''A'', Some ''1''), (''REACT_APP_A'', Some ''1''), (''PORT'', Some ''3000'')]) \<and>
   getAllEnvVars
       \<lparr>window_defined = True, process_env = [(''REACT_APP_A'', Some ''2'')], env_throws = None\<rparr> None
     = Inr [(''A'', Some ''2''), (''REACT_APP_A'', Some ''2'')]"
  by (simp add: hook_eval resolver_eval)

section \<open>C7: the cache is not keyed by configuration\<close>

text \<open>
  C7, as amended. Once the cache holds a mapping \<open>c\<close>, an invocation with any
  configuration runs no resolution, merge or required check: cache and instance stay as they
  are. An invocation that mounts an instance returns \<open>c\<close>; an invocation by an instance
  that is already mounted returns the mapping that instance holds (or throws, when the
  instance holds a diagnostic and the read of \<open>process.env.NODE_ENV\<close> in the render throws).
\<close>

theorem useEnv_call_cached:
  assumes "envCache m = Some c"
  shows "useEnv_call w options deps_changed (m, None) = Inr (m, \<lparr>envVars = c, error = None\<rparr>, c) \<and>
         useEnv_call w options deps_changed (m, Some h)
           = (case useEnv_log w h of Some e \<Rightarrow> Inl e | None \<Rightarrow> Inr (m, h, envVars h))"
  using assms
  by (simp add: useEnv_call_pair useEnv_render_mount useEnv_render_mounted useEnv_init_def
      useEnv_effect_skip split: option.splits)

text \<open>
  A cache filled under the prefix \<open>A_\<close> and a new instance asking with the prefix \<open>B_\<close>,
  a required key and a fallback: it gets the cached mapping. A mounted instance holding
  another mapping keeps it.
\<close>

theorem useEnv_call_cached_witness:
  "envCache \<lparr>envCache = Some [(''X'', Some ''1''), (''A_X'', Some ''1'')], isLoading = False\<rparr>
     = Some [(''X'', Some ''1''), (''A_X'', Some ''1'')] \<and>
   useEnv_call
       \<lparr>window_defined = True, process_env = [(''A_X'', Some ''1''), (''B_Y'', Some ''2'')],
         env_throws = None\<rparr>
       \<lparr>prefix = Some ''B_'', required = Some [''Y''], fallbacks = Some [(''Z'', ''3'')]\<rparr> True
       (\<lparr>envCache = Some [(''X'', Some ''1''), (''A_X'', Some ''1'')], isLoading = False\<rparr>, None)
     = Inr (\<lparr>envCache = Some [(''X'', Some ''1''), (''A_X'', Some ''1'')], isLoading = False\<rparr>,
            \<lparr>envVars = [(''X'', Some ''1''), (''A_X'', Some ''1'')], error = None\<rparr>,
            [(''X'', Some ''1''), (''A_X'', Some ''1'')]) \<and>
   useEnv_call
       \<lparr>window_defined = True, process_env = [(''A_X'', Some ''1''), (''B_Y'', Some ''2'')],
         env_throws = None\<rparr>
       \<lparr>prefix = Some ''B_'', required = Some [''Y''], fallbacks = Some [(''Z'', ''3'')]\<rparr> True
       (\<lparr>envCache = Some [(''X'', Some ''1''), (''A_X'', Some ''1'')], isLoading = False\<rparr>,
        Some \<lparr>envVars = [(''Q'', Some ''9'')], error = Some ''old diagnostic''\<rparr>)
     = Inr (\<lparr>envCache = Some [(''X'', Some ''1''), (''A_X'', Some ''1'')], isLoading = False\<rparr>,
            \<lparr>envVars = [(''Q'', Some ''9'')], error = Some ''old diagnostic''\<rparr>,
            [(''Q'', Some ''9'')])"
proof -
  have c: "envCache \<lparr>envCache = Some [(''X'', Some ''1''), (''A_X'', Some ''1'')], isLoading = False\<rparr>
     = Some [(''X'', Some ''1''), (''A_X'', Some ''1'')]" by simp
  have l: "useEnv_log
       \<lparr>window_defined = True, process_env = [(''A_X'', Some ''1''), (''B_Y'', Some ''2'')],
         env_throws = None\<rparr>
       \<lparr>envVars = [(''Q'', Some ''9'')], error = Some ''old diagnostic''\<rparr> = None"
    by (simp add: useEnv_log_def)
  from useEnv_call_cached [OF c, THEN conjunct1]
    useEnv_call_cached [OF c, THEN conjunct2,
      of "\<lparr>window_defined = True, process_env = [(''A_X'', Some ''1''), (''B_Y'', Some ''2'')],
           env_throws = None\<rparr>" _ _ "\<lparr>envVars = [(''Q'', Some ''9'')], error = Some ''old diagnostic''\<rparr>"]
    c l
  show ?thesis by simp
qed

text \<open>
  C7 as written fails for an instance that is already mounted. Two components render in the
  same commit: the one with prefix \<open>B_\<close> renders first (the cache is empty, so its state is
  its own resolution), then the one with prefix \<open>A_\<close> renders and its effect fills the
  cache. Every later call of the \<open>B_\<close> instance returns its own mapping, not the cached
  one computed under \<open>A_\<close>.
\<close>

theorem useEnv_call_stale_instance_counterexample:
  "useEnv_render
       \<lparr>window_defined = True, process_env = [(''A_X'', Some ''1''), (''B_Y'', Some ''2'')],
         env_throws = None\<rparr>
       \<lparr>prefix = Some ''B_'', required = None, fallbacks = None\<rparr> initial_module None
     = Inr (\<lparr>envVars = [(''Y'', Some ''2''), (''B_Y'', Some ''2'')], error = None\<rparr>,
            [(''Y'', Some ''2''), (''B_Y'', Some ''2'')]) \<and>
   useEnv_call
       \<lparr>window_defined = True, process_env = [(''A_X'', Some ''1''), (''B_Y'', Some ''2'')],
         env_throws = None\<rparr>
       \<lparr>prefix = Some ''A_'', required = None, fallbacks = None\<rparr> True (initial_module, None)
     = Inr (\<lparr>envCache = Some [(''X'', Some ''1''), (''A_X'', Some ''1'')], isLoading = False\<rparr>,
            \<lparr>envVars = [(''X'', Some ''1''), (''A_X'', Some ''1'')], error = None\<rparr>,
            [(''X'', Some ''1''), (''A_X'', Some ''1'')]) \<and>
   useEnv_call
       \<lparr>window_defined = True, process_env = [(''A_X'', Some ''1''), (''B_Y'', Some ''2'')],
         env_throws = None\<rparr>
       \<lparr>prefix = Some ''B_'', required = None, fallbacks = None\<rparr> True
       (\<lparr>envCache = Some [(''X'', Some ''1''), (''A_X'', Some ''1'')], isLoading = False\<rparr>,
        Some \<lparr>envVars = [(''Y'', Some ''2''), (''B_Y'', Some ''2'')], error = None\<rparr>)
     = Inr (\<lparr>envCache = Some [(''X'', Some ''1''), (''A_X'', Some ''1'')], isLoading = False\<rparr>,
            \<lparr>envVars = [(''Y'', Some ''2''), (''B_Y'', Some ''2'')], error = None\<rparr>,
            [(''Y'', Some ''2''), (''B_Y'', Some ''2'')])"
  by (simp add: hook_eval resolver_eval)

section \<open>C8: the single-key accessor\<close>



section \<open>C9: undefined and empty values\<close>

text \<open>
  C9, as amended. In the browser, for an ambient map whose exposed keys each lose only their
  first matching prefix: a key that is \<open>undefined\<close> in the ambient map adds no entry, so
  neither its original nor its stripped name is a key of the output unless an exposed key has
  that name as its original or stripped name. A key that starts with an active prefix and is
  bound to the empty string is in the output under both names (a name \<open>__proto__\<close> apart,
  which is never added), and each name is bound to the empty string whenever no other exposed
  key has that name.
\<close>

theorem getAllEnvVars_undefined_and_empty:
  assumes "window_defined w" and "env_throws w = None"
    and "\<forall>k \<in> set (exposed_keys (process_env w) (prefixes_of cp)). strips_once (prefixes_of cp) k"
  shows "\<exists>out. getAllEnvVars w cp = Inr out \<and>
     (\<forall>k. obj_get (process_env w) k = None \<longrightarrow>
        (\<forall>n \<in> {k, strip_first (prefixes_of cp) k}.
           (\<forall>k' \<in> set (exposed_keys (process_env w) (prefixes_of cp)).
               n \<noteq> k' \<and> n \<noteq> strip_first (prefixes_of cp) k')
           \<longrightarrow> n \<notin> set (obj_keys out))) \<and>
     (\<forall>k \<in> set (obj_keys (process_env w)).
        obj_get (process_env w) k = Some [] \<and> starts_with_some (prefixes_of cp) k \<longrightarrow>
        (k \<noteq> ''__proto__'' \<longrightarrow> k \<in> set (obj_keys out)) \<and>
        (strip_first (prefixes_of cp) k \<noteq> ''__proto__'' \<longrightarrow>
           strip_first (prefixes_of cp) k \<in> set (obj_keys out)) \<and>
        (\<forall>n \<in> {k, strip_first (prefixes_of cp) k}.
           n \<noteq> ''__proto__'' \<and>
           (\<forall>k' \<in> set (exposed_keys (process_env w) (prefixes_of cp)).
               k' \<noteq> k \<longrightarrow> n \<noteq> k' \<and> n \<noteq> strip_first (prefixes_of cp) k')
           \<longrightarrow> obj_get out n = Some []))"
proof -
  define M where "M = process_env w"
  define P where "P = prefixes_of cp"
  define out where "out = foldl (forEach_key M P) [] (obj_keys M)"
  have once: "\<forall>k \<in> set (exposed_keys M P). strips_once P k" using assms(3) by (simp add: M_def P_def)
  have r: "getAllEnvVars w cp = Inr out"
    using assms(1,2) by (simp add: getAllEnvVars_browser out_def M_def P_def)
  have ks: "set (obj_keys out)
              = (set (exposed_keys M P) \<union> strip_first P ` set (exposed_keys M P)) - {''__proto__''}"
    unfolding out_def by (rule resolved_keys [OF once])
  have undef: "\<forall>k. obj_get M k = None \<longrightarrow>
        (\<forall>n \<in> {k, strip_first P k}.
           (\<forall>k' \<in> set (exposed_keys M P). n \<noteq> k' \<and> n \<noteq> strip_first P k')
           \<longrightarrow> n \<notin> set (obj_keys out))"
    unfolding ks by blast
  have empty: "\<forall>k \<in> set (obj_keys M).
        obj_get M k = Some [] \<and> starts_with_some P k \<longrightarrow>
        (k \<noteq> ''__proto__'' \<longrightarrow> k \<in> set (obj_keys out)) \<and>
        (strip_first P k \<noteq> ''__proto__'' \<longrightarrow> strip_first P k \<in> set (obj_keys out)) \<and>
        (\<forall>n \<in> {k, strip_first P k}.
           n \<noteq> ''__proto__'' \<and>
           (\<forall>k' \<in> set (exposed_keys M P). k' \<noteq> k \<longrightarrow> n \<noteq> k' \<and> n \<noteq> strip_first P k')
           \<longrightarrow> obj_get out n = Some [])"
  proof (intro ballI impI)
    fix k
    assume k: "k \<in> set (obj_keys M)" and e: "obj_get M k = Some [] \<and> starts_with_some P k"
    then have ex: "k \<in> set (exposed_keys M P)" by (simp add: set_exposed_keys is_exposed_def)
    have v: "obj_get out n = Some []"
      if n: "n \<in> {k, strip_first P k}"
        and u: "n \<noteq> ''__proto__'' \<and>
                (\<forall>k' \<in> set (exposed_keys M P). k' \<noteq> k \<longrightarrow> n \<noteq> k' \<and> n \<noteq> strip_first P k')" for n
    proof -
      from n have "n = k \<or> n = strip_first P k" by auto
      from bearers_unique [OF ex this] u
      have "bearers M P n \<noteq> [] \<and> last (bearers M P n) = k" by blast
      then show ?thesis using u e by (simp add: out_def resolved_get [OF once])
    qed
    from ex ks have k1: "k \<noteq> ''__proto__'' \<longrightarrow> k \<in> set (obj_keys out)" by blast
    from ex ks have k2: "strip_first P k \<noteq> ''__proto__'' \<longrightarrow> strip_first P k \<in> set (obj_keys out)"
      by blast
    from k1 k2 v
    show "(k \<noteq> ''__proto__'' \<longrightarrow> k \<in> set (obj_keys out)) \<and>
        (strip_first P k \<noteq> ''__proto__'' \<longrightarrow> strip_first P k \<in> set (obj_keys out)) \<and>
        (\<forall>n \<in> {k, strip_first P k}.
           n \<noteq> ''__proto__'' \<and>
           (\<forall>k' \<in> set (exposed_keys M P). k' \<noteq> k \<longrightarrow> n \<noteq> k' \<and> n \<noteq> strip_first P k')
           \<longrightarrow> obj_get out n = Some [])"
      by blast
  qed
  from r undef empty show ?thesis unfolding M_def P_def by blast
qed

text \<open>
  \<open>REACT_APP_PORT\<close> is the empty string and \<open>VITE_HOST\<close> is \<open>undefined\<close>.
\<close>

theorem getAllEnvVars_undefined_and_empty_witness:
  "window_defined \<lparr>window_defined = True,
       process_env = [(''REACT_APP_PORT'', Some []), (''VITE_HOST'', None)], env_throws = None\<rparr> \<and>
   env_throws \<lparr>window_defined = True,
       process_env = [(''REACT_APP_PORT'', Some []), (''VITE_HOST'', None)], env_throws = None\<rparr> = None \<and>
   (\<exists>out. getAllEnvVars \<lparr>window_defined = True,
               process_env = [(''REACT_APP_PORT'', Some []), (''VITE_HOST'', None)],
               env_throws = None\<rparr> None = Inr out \<and>
          ''VITE_HOST'' \<notin> set (obj_keys out) \<and> ''HOST'' \<notin> set (obj_keys out) \<and>
          ''PORT'' \<in> set (obj_keys out) \<and>
          obj_get out ''REACT_APP_PORT'' = Some [] \<and> obj_get out ''PORT'' = Some [])"
proof -
  define w where "w = \<lparr>window_defined = True,
       process_env = [(''REACT_APP_PORT'', Some []), (''VITE_HOST'', None)], env_throws = None\<rparr>"
  have b: "window_defined w" and s: "env_throws w = None" by (simp_all add: w_def)
  have e: "exposed_keys (process_env w) (prefixes_of None) = [''REACT_APP_PORT'']"
    by (simp add: w_def exposed_keys_def is_exposed_def obj_keys_def obj_get_def prefixes_of_def
        starts_with_some_def default_prefixes_def)
  have c: "strip_first (prefixes_of None) ''REACT_APP_PORT'' = ''PORT''"
    "strip_first (prefixes_of None) ''VITE_HOST'' = ''HOST''"
    by (simp_all add: prefixes_of_def default_prefixes_def)
  have o: "\<forall>k \<in> set (exposed_keys (process_env w) (prefixes_of None)). strips_once (prefixes_of None) k"
    unfolding e
    by (simp add: prefixes_of_def default_prefixes_def starts_with_some_def)
  have g: "obj_get (process_env w) ''VITE_HOST'' = None"
    "obj_get (process_env w) ''REACT_APP_PORT'' = Some []"
    "''REACT_APP_PORT'' \<in> set (obj_keys (process_env w))"
    "starts_with_some (prefixes_of None) ''REACT_APP_PORT''"
    by (simp_all add: w_def obj_get_def obj_keys_def prefixes_of_def
        starts_with_some_def default_prefixes_def)
  note T = getAllEnvVars_undefined_and_empty [OF b s o]
  then obtain out where all: "getAllEnvVars w None = Inr out \<and>
     (\<forall>k. obj_get (process_env w) k = None \<longrightarrow>
        (\<forall>n \<in> {k, strip_first (prefixes_of None) k}.
           (\<forall>k' \<in> set (exposed_keys (process_env w) (prefixes_of None)).
               n \<noteq> k' \<and> n \<noteq> strip_first (prefixes_of None) k')
           \<longrightarrow> n \<notin> set (obj_keys out))) \<and>
     (\<forall>k \<in> set (obj_keys (process_env w)).
        obj_get (process_env w) k = Some [] \<and> starts_with_some (prefixes_of None) k \<longrightarrow>
        (k \<noteq> ''__proto__'' \<longrightarrow> k \<in> set (obj_keys out)) \<and>
        (strip_first (prefixes_of None) k \<noteq> ''__proto__'' \<longrightarrow>
           strip_first (prefixes_of None) k \<in> set (obj_keys out)) \<and>
        (\<forall>n \<in> {k, strip_first (prefixes_of None) k}.
           n \<noteq> ''__proto__'' \<and>
           (\<forall>k' \<in> set (exposed_keys (process_env w) (prefixes_of None)).
               k' \<noteq> k \<longrightarrow> n \<noteq> k' \<and> n \<noteq> strip_first (prefixes_of None) k')
           \<longrightarrow> obj_get out n = Some []))" ..
  note r = all [THEN conjunct1]
  note u = all [THEN conjunct2, THEN conjunct1]
  note m = all [THEN conjunct2, THEN conjunct2]
  from u [rule_format, of "''VITE_HOST''" "''VITE_HOST''"] g(1)
  have u1: "''VITE_HOST'' \<notin> set (obj_keys out)" by (simp add: e c)
  from u [rule_format, of "''VITE_HOST''" "''HOST''"] g(1)
  have u2: "''HOST'' \<notin> set (obj_keys out)" by (simp add: e c)
  from m [rule_format, OF g(3)] g(2,4)
  have m1: "''PORT'' \<in> set (obj_keys out)"
    "obj_get out ''REACT_APP_PORT'' = Some []" "obj_get out ''PORT'' = Some []"
    by (simp_all add: e c)
  from b s r u1 u2 m1 show ?thesis unfolding w_def by blast
qed

text \<open>
  C9 as written fails when the cleaned name of another key is the key in question:
  \<open>VITE_REACT_APP_A\<close> is cleaned to \<open>REACT_APP_A\<close>, so \<open>REACT_APP_A\<close> is in the output
  although it is \<open>undefined\<close> in the ambient map, and when it is the empty string there, the
  output binds it to 1.
\<close>

theorem getAllEnvVars_undefined_and_empty_counterexample:
  "getAllEnvVars \<lparr>window_defined = True,
       process_env = [(''REACT_APP_A'', None), (''VITE_REACT_APP_A'', Some ''1'')],
       env_throws = None\<rparr> None
     = Inr [(''REACT_APP_A'', Some ''1''), (''VITE_REACT_APP_A'', Some ''1'')] \<and>
   getAllEnvVars \<lparr>window_defined = True,
       process_env = [(''REACT_APP_A'', Some []), (''VITE_REACT_APP_A'', Some ''1'')],
       env_throws = None\<rparr> None
     = Inr [(''A'', Some []), (''REACT_APP_A'', Some ''1''), (''VITE_REACT_APP_A'', Some ''1'')]"
  by (simp add: resolver_eval)

section \<open>C10: a failing resolution pass\<close>

text \<open>
  C10. A failure of the resolver should never leave \<open>useEnv\<close> as an exception. In a browser
  bundle without a \<open>process\<close> object, evaluating \<open>process.env\<close> throws. The effect catches
  that and stores the diagnostic, leaving cache and mapping as they were; but the first call
  of a component runs the same resolver in the initialiser of \<open>useState\<close>, outside any
  \<open>try\<close>, and throws; and the render that follows a caught failure reads
  \<open>process.env.NODE_ENV\<close>, outside any \<open>try\<close>, and throws as well.
\<close>

theorem useEnv_failure_propagates:
  "useEnv_invoke
       \<lparr>window_defined = True, process_env = [],
         env_throws = Some ''ReferenceError: process is not defined''\<rparr>
       no_options False (initial_module, None)
     = Inl ''ReferenceError: process is not defined'' \<and>
   useEnv_effect
       \<lparr>window_defined = True, process_env = [],
         env_throws = Some ''ReferenceError: process is not defined''\<rparr>
       no_options (initial_module, \<lparr>envVars = [(''A'', Some ''1'')], error = None\<rparr>)
     = (initial_module,
        \<lparr>envVars = [(''A'', Some ''1'')],
          error = Some ''Failed to load environment variables: ReferenceError: process is not defined''\<rparr>) \<and>
   useEnv_render
       \<lparr>window_defined = True, process_env = [],
         env_throws = Some ''ReferenceError: process is not defined''\<rparr>
       no_options initial_module
       (Some \<lparr>envVars = [(''A'', Some ''1'')],
               error = Some ''Failed to load environment variables: ReferenceError: process is not defined''\<rparr>)
     = Inl ''ReferenceError: process is not defined''"
  by (simp add: useEnv_invoke_def useEnv_render_def useEnv_init_def useEnv_log_def
      useEnv_effect_def getAllEnvVars_def initial_module_def no_options_def failed_message_def)

end
